theory Spec2Isabelle
  imports Complex_Main "HOL-Library.AList"
begin

section \<open>Strings: the Python string methods used by the connector\<close>

text \<open>
  A \<open>string\<close> is a list of characters, each read as one code point below 256.
  \<open>isspace\<close> lists the code points below 256 that Python's \<open>str.strip()\<close> removes.
\<close>

definition isspace :: "char \<Rightarrow> bool" where
  "isspace c = (c \<in> set [CHR 0x09, CHR 0x0A, CHR 0x0B, CHR 0x0C, CHR 0x0D,
                           CHR 0x1C, CHR 0x1D, CHR 0x1E, CHR 0x1F, CHR 0x20,
                           CHR 0x85, CHR 0xA0])"

definition lstrip :: "(char \<Rightarrow> bool) \<Rightarrow> string \<Rightarrow> string" where
  "lstrip p s = dropWhile p s"

definition rstrip :: "(char \<Rightarrow> bool) \<Rightarrow> string \<Rightarrow> string" where
  "rstrip p s = rev (dropWhile p (rev s))"

definition strip :: "string \<Rightarrow> string" where
  "strip s = rstrip isspace (lstrip isspace s)"

definition is_slash :: "char \<Rightarrow> bool" where
  "is_slash c = (c = CHR ''/'')"

text \<open>\<open>s.split(sep)\<close> for a one-character separator: never the empty list.\<close>

fun split_on :: "char \<Rightarrow> string \<Rightarrow> string list" where
  "split_on sep [] = [[]]"
| "split_on sep (c # cs) =
     (if c = sep then [] # split_on sep cs
      else (case split_on sep cs of
              [] \<Rightarrow> [[c]]
            | w # ws \<Rightarrow> (c # w) # ws))"


section \<open>Configuration\<close>

text \<open>
  Line 36 of \<open>load_config\<close>:
  \<open>[e.strip().lstrip("/") for e in csv.split(",") if e.strip()]\<close>.
\<close>

definition parse_endpoints :: "string \<Rightarrow> string list" where
  "parse_endpoints csv =
     map (\<lambda>e. lstrip is_slash (strip e))
         (filter (\<lambda>e. strip e \<noteq> []) (split_on CHR '','' csv))"

section \<open>Auth headers\<close>

text \<open>A header dictionary is an association list; the function builds at most one entry.\<close>

definition build_auth_headers :: "string \<Rightarrow> string \<Rightarrow> string \<Rightarrow> (string \<times> string) list" where
  "build_auth_headers api_key header_name prefix =
     (if api_key = [] then []
      else let v = strip (prefix @ '' '' @ api_key);
               v' = (if prefix = [] then api_key else v)
           in [(header_name, v')])"

section \<open>Python values and payload normalisation\<close>

text \<open>
  The values \<open>response.json()\<close> can return, plus the two non-JSON values the pipeline puts
  into a document: the \<open>datetime\<close> of \<open>ingested_at\<close> and the driver's \<open>ObjectId\<close>.
  A float is kept as mantissa and exponent; the connector never inspects one.
  A dictionary is an association list in insertion order; lookup is \<open>map_of\<close>.
\<close>

datatype pyval =
    PNone
  | PBool bool
  | PInt int
  | PFloat int int
  | PStr string
  | PList "pyval list"
  | PDict "(string \<times> pyval) list"
  | PDatetime nat
  | PObjectId nat

type_synonym pydict = "(string \<times> pyval) list"

text \<open>The \<open>for key in ("data", "items", "results")\<close> loop of \<open>ensure_list_payload\<close>.\<close>

definition list_valued :: "pydict \<Rightarrow> string \<Rightarrow> pyval list option" where
  \<comment> \<open>\<open>key in data and isinstance(data[key], list)\<close>, giving \<open>data[key]\<close>\<close>
  "list_valued d k = (case map_of d k of Some (PList xs) \<Rightarrow> Some xs | _ \<Rightarrow> None)"

fun first_list_field :: "string list \<Rightarrow> pydict \<Rightarrow> pyval list option" where
  "first_list_field [] d = None"
| "first_list_field (k # ks) d =
     (case list_valued d k of
        Some xs \<Rightarrow> Some xs
      | None \<Rightarrow> first_list_field ks d)"

fun ensure_list_payload :: "pyval \<Rightarrow> pyval list" where
  "ensure_list_payload (PList xs) = xs"
| "ensure_list_payload (PDict d) =
     (case first_list_field [''data'', ''items'', ''results''] d of
        Some xs \<Rightarrow> xs
      | None \<Rightarrow> [PDict d])"
| "ensure_list_payload v = []"

section \<open>Errors\<close>

text \<open>
  The exceptions the pipeline can meet, each a subclass of Python's \<open>Exception\<close>:
  \<open>HTTPError\<close> carries the status code, \<open>BulkWriteError\<close> the number of documents
  written by the time the driver raised.
\<close>

datatype error =
    ValueError
  | TypeError
  | RequestException
  | HTTPError nat
  | JSONDecodeError
  | MaxRetryError
  | ServerSelectionTimeoutError
  | BulkWriteError nat
  | OSError

section \<open>Configuration resolver\<close>

record config =
  api_base_url :: string
  api_endpoints :: "string list"
  api_key :: string
  api_auth_header :: string
  api_auth_prefix :: string
  mongo_uri :: string
  mongo_db :: string
  mongo_collection :: string
  connector_name :: string


text \<open>
  \<open>urlparse(url).hostname\<close> belongs to the standard library and is a parameter here:
  it gives \<open>None\<close>, a host name, or raises \<open>ValueError\<close> on a malformed address.
\<close>

type_synonym hostname_fn = "string \<Rightarrow> error + string option"


section \<open>HTTP client factory\<close>

text \<open>
  The arguments of \<open>Retry(...)\<close> as the source gives them; \<open>backoff_factor\<close> 1.5 is the
  rational 3/2. \<open>respect_retry_after_header\<close> is not passed and has the library's
  default, \<open>True\<close>.
\<close>

record retry =
  total :: int
  backoff_factor :: rat
  status_forcelist :: "nat list"
  allowed_methods :: "string set"
  raise_on_status :: bool
  respect_retry_after_header :: bool

record session =
  max_retries :: retry
  mounts :: "string list"
  default_headers :: "(string \<times> string) list"

definition build_session_with_retries :: session where
  "build_session_with_retries =
     \<lparr> max_retries =
         \<lparr> total = 5,
           backoff_factor = 3 / 2,
           status_forcelist = [429, 500, 502, 503, 504],
           allowed_methods = {''GET'', ''POST'', ''PUT'', ''DELETE'', ''PATCH''},
           raise_on_status = False,
           respect_retry_after_header = True \<rparr>,
       mounts = [''http://'', ''https://''],
       default_headers = [(''Accept'', ''application/json''),
                          (''Content-Type'', ''application/json''),
                          (''User-Agent'', ''etl-connector/1.0'')] \<rparr>"




section \<open>Extractor\<close>

record response =
  status_code :: nat
  body_text :: string
  retry_after_header :: "string option"
  json_body :: "pyval option"

text \<open>\<open>response.ok\<close>: false exactly when \<open>raise_for_status()\<close> raises, for 400 to 599.\<close>

definition ok :: "response \<Rightarrow> bool" where
  "ok resp = (\<not> (400 \<le> status_code resp \<and> status_code resp < 600))"

record meta =
  meta_status_code :: nat
  meta_url :: string
  record_count :: nat

datatype log_event =
    Fetching string
  | RateLimited "string option"
  | HttpErrorLogged nat string string
  | JsonParseFailed string
  | Fetched nat string
  | Inserted nat string string
  | Wrote string
  | FailedEndpoint string error
  | Done nat

text \<open>
  The world outside the program: the library calls whose result the code does not
  decide. \<open>send sess k url headers\<close> is the final outcome of \<open>session.get\<close> for
  the \<open>k\<close>-th endpoint of the run (after the transport's retries); \<open>pydict_of\<close> is
  \<open>dict(x)\<close> for an \<open>x\<close> that is not a dictionary; \<open>utcnow k\<close> is the \<open>k\<close>-th
  reading of the clock.
\<close>

record world =
  hostname :: hostname_fn
  urljoin :: "string \<Rightarrow> string \<Rightarrow> error + string"
  send :: "session \<Rightarrow> nat \<Rightarrow> string \<Rightarrow> (string \<times> string) list \<Rightarrow> error + response"
  pydict_of :: "pyval \<Rightarrow> error + pydict"
  utcnow :: "nat \<Rightarrow> nat"
  strftime :: "nat \<Rightarrow> string"
  output_dir_ok :: bool
  fs_write :: "string \<Rightarrow> bool"

text \<open>The source's \<open>extract\<close>; the name is a reserved word here, hence the suffix.\<close>

definition extract_endpoint ::
  "world \<Rightarrow> session \<Rightarrow> nat \<Rightarrow> string \<Rightarrow> string \<Rightarrow> (string \<times> string) list
     \<Rightarrow> log_event list \<times> (error + (pyval list \<times> meta))" where
  "extract_endpoint w sess k base_url endpoint auth_headers =
     (case urljoin w (base_url @ ''/'') endpoint of
        Inl e \<Rightarrow> ([], Inl e)
      | Inr url \<Rightarrow>
          (case send w sess k url auth_headers of
             Inl e \<Rightarrow> ([Fetching url], Inl e)
           | Inr resp \<Rightarrow>
               (let l = [Fetching url] @
                        (if status_code resp = 429 then [RateLimited (retry_after_header resp)]
                         else [])
                in if \<not> ok resp then
                     (l @ [HttpErrorLogged (status_code resp) url (take 500 (body_text resp))],
                      Inl (HTTPError (status_code resp)))
                   else (case json_body resp of
                           None \<Rightarrow> (l @ [JsonParseFailed url], Inl JSONDecodeError)
                         | Some data \<Rightarrow>
                             (let records = ensure_list_payload data
                              in (l, Inr (records,
                                          \<lparr> meta_status_code = status_code resp,
                                            meta_url = url,
                                            record_count = length records \<rparr>)))))))"

section \<open>Transformer\<close>

text \<open>
  \<open>doc["ingested_at"] = ...; doc["source_endpoint"] = ...\<close> on a dictionary: an existing
  key keeps its place and gets the new value, a new key goes to the end.
\<close>

definition enrich :: "'v \<Rightarrow> 'v \<Rightarrow> (string \<times> 'v) list \<Rightarrow> (string \<times> 'v) list" where
  "enrich ingested_at endpoint doc =
     AList.update ''source_endpoint'' endpoint (AList.update ''ingested_at'' ingested_at doc)"

text \<open>\<open>doc = dict(r)\<close> for a record \<open>r\<close>: a copy of a dictionary; any other value is the library's business.\<close>

definition dict_copy :: "(pyval \<Rightarrow> error + pydict) \<Rightarrow> pyval \<Rightarrow> error + pydict" where
  "dict_copy conv v = (case v of PDict d \<Rightarrow> Inr d | _ \<Rightarrow> conv v)"

fun transform_loop ::
  "(pyval \<Rightarrow> error + pydict) \<Rightarrow> nat \<Rightarrow> string \<Rightarrow> pyval list \<Rightarrow> pydict list \<Rightarrow> error + pydict list" where
  "transform_loop conv ingested_at endpoint [] transformed = Inr transformed"
| "transform_loop conv ingested_at endpoint (r # records) transformed =
     (case dict_copy conv r of
        Inl e \<Rightarrow> Inl e
      | Inr doc \<Rightarrow>
          transform_loop conv ingested_at endpoint records
            (transformed @ [enrich (PDatetime ingested_at) (PStr endpoint) doc]))"

text \<open>The clock is read once, before the loop; \<open>c\<close> counts the readings made so far.\<close>

definition transform :: "world \<Rightarrow> nat \<Rightarrow> pyval list \<Rightarrow> string \<Rightarrow> nat \<times> (error + pydict list)" where
  "transform w c records endpoint =
     (let ingested_at = utcnow w c
      in (Suc c, transform_loop (pydict_of w) ingested_at endpoint records []))"

section \<open>Transformer on a store of objects\<close>

text \<open>
  To speak about aliasing and mutation, the same function over an explicit store.
  A list or a dictionary is an object at an address; a value is a scalar or a reference
  to an object. The store is the list of all objects, an address is an index into it,
  and a new object goes to the end.
\<close>

datatype hval =
    HNone
  | HBool bool
  | HInt int
  | HFloat int int
  | HStr string
  | HDatetime nat
  | HRef nat

datatype hobj =
    HDictObj "(string \<times> hval) list"
  | HListObj "hval list"

type_synonym heap = "hobj list"

definition hget :: "heap \<Rightarrow> nat \<Rightarrow> hobj option" where
  "hget h a = (if a < length h then Some (h ! a) else None)"

definition alloc :: "heap \<Rightarrow> hobj \<Rightarrow> heap \<times> nat" where
  "alloc h obj = (h @ [obj], length h)"

text \<open>\<open>d[k] = v\<close> and \<open>xs.append(v)\<close> on the object at an address.\<close>

definition setitem :: "heap \<Rightarrow> nat \<Rightarrow> string \<Rightarrow> hval \<Rightarrow> heap" where
  "setitem h a k v =
     (case hget h a of
        Some (HDictObj d) \<Rightarrow> h[a := HDictObj (AList.update k v d)]
      | _ \<Rightarrow> h)"

definition append_h :: "heap \<Rightarrow> nat \<Rightarrow> hval \<Rightarrow> heap" where
  "append_h h a v =
     (case hget h a of
        Some (HListObj xs) \<Rightarrow> h[a := HListObj (xs @ [v])]
      | _ \<Rightarrow> h)"

text \<open>
  \<open>dict(r)\<close>: the items of the dictionary \<open>r\<close> refers to (the values are shared, the
  copy is shallow); for any other value the library decides, as in \<open>dict_copy\<close>.
\<close>

definition dict_h ::
  "(heap \<Rightarrow> hval \<Rightarrow> error + (string \<times> hval) list) \<Rightarrow> heap \<Rightarrow> hval
     \<Rightarrow> error + (string \<times> hval) list" where
  "dict_h conv h r =
     (case r of
        HRef a \<Rightarrow> (case hget h a of Some (HDictObj d) \<Rightarrow> Inr d | _ \<Rightarrow> conv h r)
      | _ \<Rightarrow> conv h r)"

text \<open>
  The loop body, statement by statement. \<open>transformed\<close> is the address of the result
  list. The elements of \<open>records\<close> are read when the loop starts: the loop writes to
  \<open>transformed\<close> and to the new dictionaries only.
\<close>

fun transform_loop_h ::
  "(heap \<Rightarrow> hval \<Rightarrow> error + (string \<times> hval) list) \<Rightarrow> hval \<Rightarrow> hval \<Rightarrow> nat
     \<Rightarrow> hval list \<Rightarrow> heap \<Rightarrow> heap \<times> error option" where
  "transform_loop_h conv ingested_at endpoint transformed [] h = (h, None)"
| "transform_loop_h conv ingested_at endpoint transformed (r # records) h =
     (case dict_h conv h r of
        Inl e \<Rightarrow> (h, Some e)
      | Inr d \<Rightarrow>
          (let (h1, doc) = alloc h (HDictObj d);
               h2 = setitem h1 doc ''ingested_at'' ingested_at;
               h3 = setitem h2 doc ''source_endpoint'' endpoint;
               h4 = append_h h3 transformed (HRef doc)
           in transform_loop_h conv ingested_at endpoint transformed records h4))"

text \<open>
  \<open>records\<close> is the address of the input list. An address that holds no list is
  outside the declared argument type and gives \<open>TypeError\<close> here.
\<close>

definition transform_h ::
  "(heap \<Rightarrow> hval \<Rightarrow> error + (string \<times> hval) list) \<Rightarrow> (nat \<Rightarrow> nat) \<Rightarrow> nat \<Rightarrow> heap
     \<Rightarrow> nat \<Rightarrow> string \<Rightarrow> nat \<times> heap \<times> (error + nat)" where
  "transform_h conv now c h records endpoint =
     (let ingested_at = HDatetime (now c);
          (h0, transformed) = alloc h (HListObj [])
      in case hget h0 records of
           Some (HListObj rs) \<Rightarrow>
             (case transform_loop_h conv ingested_at (HStr endpoint) transformed rs h0 of
                (h', None) \<Rightarrow> (Suc c, h', Inr transformed)
              | (h', Some e) \<Rightarrow> (Suc c, h', Inl e))
         | _ \<Rightarrow> (Suc c, h0, Inl TypeError))"

text \<open>The items of the dictionary a record refers to (empty for anything else).\<close>

definition items_at :: "heap \<Rightarrow> hval \<Rightarrow> (string \<times> hval) list" where
  "items_at h r =
     (case r of
        HRef a \<Rightarrow> (case hget h a of Some (HDictObj d) \<Rightarrow> d | _ \<Rightarrow> [])
      | _ \<Rightarrow> [])"

definition is_record :: "heap \<Rightarrow> hval \<Rightarrow> bool" where
  "is_record h r =
     (case r of
        HRef a \<Rightarrow> (case hget h a of Some (HDictObj d) \<Rightarrow> True | _ \<Rightarrow> False)
      | _ \<Rightarrow> False)"

section \<open>Loader\<close>





section \<open>Debug sink\<close>


section \<open>Run orchestrator\<close>








section \<open>Worlds for the worked examples\<close>

definition demo_world :: world where
  "demo_world = \<lparr> hostname = (\<lambda>u. Inr (Some ''api.example.com'')),
                  urljoin = (\<lambda>b e. Inr (b @ e)),
                  send = (\<lambda>s k u h. Inl RequestException),
                  pydict_of = (\<lambda>v. Inl TypeError),
                  utcnow = (\<lambda>k. 1000 + k),
                  strftime = (\<lambda>t. ''t''),
                  output_dir_ok = True,
                  fs_write = (\<lambda>p. True) \<rparr>"

text \<open>
  A server that answers 500 for \<open>posts\<close> and a list of three records for anything else.
\<close>

definition three_records :: pyval where
  "three_records = PList [PDict [(''id'', PInt 1)], PDict [(''id'', PInt 2)], PDict [(''id'', PInt 3)]]"

definition two_endpoint_world :: world where
  "two_endpoint_world =
     demo_world\<lparr> send := (\<lambda>s k u h.
        if u = ''http://api.example.com/posts''
        then Inr \<lparr> status_code = 500, body_text = ''oops'', retry_after_header = None,
                   json_body = None \<rparr>
        else Inr \<lparr> status_code = 200, body_text = ''[...]'', retry_after_header = None,
                   json_body = Some three_records \<rparr>) \<rparr>"



section \<open>Properties of the string functions\<close>

lemma split_on_nonempty: "split_on c s \<noteq> []"
  by (induction s) (auto split: list.splits)

lemma split_on_concat: "split_on c (a @ c # b) = split_on c a @ split_on c b"
  by (induction a) (auto split: list.splits simp: split_on_nonempty)

lemma split_on_no_sep: "c \<notin> set e \<Longrightarrow> split_on c e = [e]"
  by (induction e) auto

lemma strip_id: "s \<noteq> [] \<Longrightarrow> \<not> isspace (hd s) \<Longrightarrow> \<not> isspace (last s) \<Longrightarrow> strip s = s"
proof -
  assume ne: "s \<noteq> []" and h: "\<not> isspace (hd s)" and l: "\<not> isspace (last s)"
  from ne h have a: "dropWhile isspace s = s" by (cases s) auto
  from ne l have "dropWhile isspace (rev s) = rev s"
    by (cases "rev s") (auto simp: last_rev [symmetric] simp del: last_rev)
  with a show ?thesis by (simp add: strip_def lstrip_def rstrip_def)
qed

lemma lstrip_slash_Nil: "lstrip is_slash x = [] \<longleftrightarrow> (\<forall>c \<in> set x. c = CHR ''/'')"
  by (simp add: lstrip_def is_slash_def dropWhile_eq_Nil_conv)

lemma in_parse_endpoints:
  "r \<in> set (parse_endpoints s) \<longleftrightarrow>
     (\<exists>e \<in> set (split_on CHR '','' s). strip e \<noteq> [] \<and> lstrip is_slash (strip e) = r)"
  unfolding parse_endpoints_def by auto

text \<open>
  Claim C4, as the code has it. The endpoint string is split on commas, each entry is
  trimmed of surrounding whitespace and then of leading slashes, and the entries that are
  empty or all whitespace are dropped; order is kept and duplicates stay (the result of a
  string \<open>a,b\<close> is the result of \<open>a\<close> followed by that of \<open>b\<close>).
  \<open>" posts, /comments ,,users "\<close> gives \<open>["posts", "comments", "users"]\<close>.
  No entry of the result is the empty string unless some trimmed entry consists of
  slashes only.
\<close>

theorem parse_endpoints_amended:
  "parse_endpoints '' posts, /comments ,,users '' = [''posts'', ''comments'', ''users'']
   \<and> parse_endpoints (a @ '','' @ b) = parse_endpoints a @ parse_endpoints b
   \<and> (CHR '','' \<notin> set e \<longrightarrow>
        parse_endpoints e = (if strip e = [] then [] else [lstrip is_slash (strip e)]))
   \<and> ((\<forall>e \<in> set (split_on CHR '','' s). strip e \<noteq> [] \<longrightarrow> (\<exists>c \<in> set (strip e). c \<noteq> CHR ''/''))
        \<longrightarrow> [] \<notin> set (parse_endpoints s))"
proof (intro conjI)
  show "parse_endpoints '' posts, /comments ,,users '' = [''posts'', ''comments'', ''users'']"
    by (simp add: parse_endpoints_def strip_def lstrip_def rstrip_def isspace_def is_slash_def)
  show "parse_endpoints (a @ '','' @ b) = parse_endpoints a @ parse_endpoints b"
    by (simp add: parse_endpoints_def split_on_concat)
  show "CHR '','' \<notin> set e \<longrightarrow>
        parse_endpoints e = (if strip e = [] then [] else [lstrip is_slash (strip e)])"
    by (simp add: parse_endpoints_def split_on_no_sep)
  have "[] \<in> set (parse_endpoints s) \<longleftrightarrow>
        (\<exists>e \<in> set (split_on CHR '','' s). strip e \<noteq> [] \<and> (\<forall>c \<in> set (strip e). c = CHR ''/''))"
    by (simp only: in_parse_endpoints lstrip_slash_Nil)
  then show "(\<forall>e \<in> set (split_on CHR '','' s). strip e \<noteq> [] \<longrightarrow> (\<exists>c \<in> set (strip e). c \<noteq> CHR ''/''))
        \<longrightarrow> [] \<notin> set (parse_endpoints s)"
    by blast
qed

text \<open>The amended C4 at concrete endpoint strings.\<close>

theorem parse_endpoints_amended_witness:
  "parse_endpoints (''a,b'' @ '','' @ ''/ c,a'') = [''a'', ''b'', '' c'', ''a'']
   \<and> parse_endpoints ''  '' = [] \<and> parse_endpoints '' //x/ '' = [''x/'']
   \<and> [] \<notin> set (parse_endpoints ''a, /b ,'')"
proof -
  note ev = parse_endpoints_def strip_def lstrip_def rstrip_def isspace_def is_slash_def
  note th = parse_endpoints_amended [of "''a,b''" "''/ c,a''" "''  ''" "''a, /b ,''"]
  have 1: "parse_endpoints ''a,b'' = [''a'', ''b'']" "parse_endpoints ''/ c,a'' = ['' c'', ''a'']"
    by (simp_all add: ev)
  have 2: "strip ''  '' = []" "strip '' //x/ '' = ''//x/''" "strip '' /b '' = ''/b''"
          "strip ''a'' = ''a''" "strip [] = []"
    by (simp_all add: strip_def lstrip_def rstrip_def isspace_def)
  have c1: "parse_endpoints (''a,b'' @ '','' @ ''/ c,a'') = [''a'', ''b'', '' c'', ''a'']"
    using th 1 by simp
  have "CHR '','' \<notin> set ''  ''" by simp
  with th have c2: "parse_endpoints ''  '' = []"
    using 2(1) by simp
  have "CHR '','' \<notin> set '' //x/ ''" by simp
  with parse_endpoints_amended [of "''a''" "''b''" "'' //x/ ''" "''a''"]
  have c3: "parse_endpoints '' //x/ '' = [''x/'']"
    using 2(2) by (simp add: lstrip_def is_slash_def)
  have "\<forall>e \<in> set (split_on CHR '','' ''a, /b ,''). strip e \<noteq> [] \<longrightarrow> (\<exists>c \<in> set (strip e). c \<noteq> CHR ''/'')"
    using 2(3,4,5) by simp
  with th have c4: "[] \<notin> set (parse_endpoints ''a, /b ,'')"
    by blast
  from c1 c2 c3 c4 show ?thesis by blast
qed

text \<open>
  Claim C4 as stated fails: the entry \<open>"/"\<close> is not empty when the filter sees it and
  is the empty string after its slash is removed.
\<close>

theorem parse_endpoints_counterexample:
  "parse_endpoints ''/'' = [''''] \<and> [] \<in> set (parse_endpoints ''posts,/'')"
  by (simp add: parse_endpoints_def strip_def lstrip_def rstrip_def isspace_def is_slash_def)

text \<open>
  Claim C6, as the code has it. An empty key gives no header. A non-empty key with an
  empty prefix gives the bare key. A non-empty key with a non-empty prefix gives
  \<open>"{prefix} {key}"\<close> with surrounding whitespace stripped, which is \<open>"{prefix} {key}"\<close>
  itself when the prefix does not begin and the key does not end with whitespace;
  key \<open>"abc"\<close> and prefix \<open>"Bearer"\<close> give \<open>"Bearer abc"\<close>.
\<close>

theorem build_auth_headers_amended:
  "build_auth_headers [] h p = []
   \<and> (k \<noteq> [] \<longrightarrow> build_auth_headers k h [] = [(h, k)])
   \<and> (k \<noteq> [] \<and> p \<noteq> [] \<longrightarrow> build_auth_headers k h p = [(h, strip (p @ '' '' @ k))])
   \<and> (k \<noteq> [] \<and> p \<noteq> [] \<and> \<not> isspace (hd p) \<and> \<not> isspace (last k) \<longrightarrow>
        build_auth_headers k h p = [(h, p @ '' '' @ k)])
   \<and> build_auth_headers ''abc'' ''Authorization'' ''Bearer'' = [(''Authorization'', ''Bearer abc'')]"
proof (intro conjI impI)
  show "build_auth_headers [] h p = []" by (simp add: build_auth_headers_def)
  show "build_auth_headers k h [] = [(h, k)]" if "k \<noteq> []"
    using that by (simp add: build_auth_headers_def)
  show "build_auth_headers k h p = [(h, strip (p @ '' '' @ k))]" if "k \<noteq> [] \<and> p \<noteq> []"
    using that by (simp add: build_auth_headers_def)
  show "build_auth_headers k h p = [(h, p @ '' '' @ k)]"
    if a: "k \<noteq> [] \<and> p \<noteq> [] \<and> \<not> isspace (hd p) \<and> \<not> isspace (last k)"
  proof -
    from a have "strip (p @ '' '' @ k) = p @ '' '' @ k"
      by (intro strip_id) auto
    with a show ?thesis by (simp add: build_auth_headers_def)
  qed
  show "build_auth_headers ''abc'' ''Authorization'' ''Bearer'' = [(''Authorization'', ''Bearer abc'')]"
    by (simp add: build_auth_headers_def strip_def lstrip_def rstrip_def isspace_def)
qed

text \<open>The amended C6 at concrete keys and prefixes.\<close>

theorem build_auth_headers_amended_witness:
  "build_auth_headers ''s3cret'' ''X-Api-Key'' [] = [(''X-Api-Key'', ''s3cret'')]
   \<and> build_auth_headers ''tok '' ''Authorization'' '' Token'' = [(''Authorization'', ''Token tok'')]
   \<and> build_auth_headers ''tok'' ''Authorization'' ''Token'' = [(''Authorization'', ''Token tok'')]"
proof -
  have s: "strip ('' Token'' @ '' '' @ ''tok '') = ''Token tok''"
    by (simp add: strip_def lstrip_def rstrip_def isspace_def)
  have n: "\<not> isspace (hd ''Token'')" "\<not> isspace (last ''tok'')"
    by (simp_all add: isspace_def)
  have a: "build_auth_headers ''s3cret'' ''X-Api-Key'' [] = [(''X-Api-Key'', ''s3cret'')]"
    using build_auth_headers_amended [of "''X-Api-Key''" "[]" "''s3cret''"] by simp
  have b: "build_auth_headers ''tok '' ''Authorization'' '' Token'' = [(''Authorization'', ''Token tok'')]"
    using build_auth_headers_amended [of "''Authorization''" "'' Token''" "''tok ''"] s by simp
  have "''tok'' \<noteq> [] \<and> ''Token'' \<noteq> [] \<and> \<not> isspace (hd ''Token'') \<and> \<not> isspace (last ''tok'')"
    using n by simp
  with build_auth_headers_amended [of "''Authorization''" "''Token''" "''tok''"]
  have c: "build_auth_headers ''tok'' ''Authorization'' ''Token'' = [(''Authorization'', ''Token'' @ '' '' @ ''tok'')]"
    by blast
  from a b c show ?thesis by simp
qed

text \<open>
  Claim C6 as stated fails for a key that ends with a space: the header value is
  stripped and is not \<open>"{prefix} {key}"\<close>.
\<close>

theorem build_auth_headers_counterexample:
  "build_auth_headers ''abc '' ''Authorization'' ''Bearer'' = [(''Authorization'', ''Bearer abc'')]
   \<and> ''Bearer abc'' \<noteq> ''Bearer'' @ '' '' @ ''abc ''"
  by (simp add: build_auth_headers_def strip_def lstrip_def rstrip_def isspace_def)

text \<open>
  Claim C3. A list is returned as it is. For a dictionary the keys \<open>data\<close>, \<open>items\<close>,
  \<open>results\<close> are tried in this order and the first one holding a list gives the result;
  a dictionary with none of them holding a list is returned as a one-element list; any
  other value gives the empty list.
\<close>

theorem ensure_list_payload_shapes:
  "ensure_list_payload (PList xs) = xs
   \<and> (list_valued d ''data'' = Some xs \<longrightarrow> ensure_list_payload (PDict d) = xs)
   \<and> (list_valued d ''data'' = None \<and> list_valued d ''items'' = Some xs \<longrightarrow>
        ensure_list_payload (PDict d) = xs)
   \<and> (list_valued d ''data'' = None \<and> list_valued d ''items'' = None
        \<and> list_valued d ''results'' = Some xs \<longrightarrow> ensure_list_payload (PDict d) = xs)
   \<and> (list_valued d ''data'' = None \<and> list_valued d ''items'' = None
        \<and> list_valued d ''results'' = None \<longrightarrow> ensure_list_payload (PDict d) = [PDict d])
   \<and> ((\<forall>ys. v \<noteq> PList ys) \<and> (\<forall>e. v \<noteq> PDict e) \<longrightarrow> ensure_list_payload v = [])"
  by (cases v) simp_all

text \<open>Claim C3 at concrete payloads, with several of the keys present at once.\<close>

theorem ensure_list_payload_shapes_witness:
  "ensure_list_payload (PDict [(''results'', PList [PInt 1]), (''data'', PList [PInt 2, PInt 3])])
     = [PInt 2, PInt 3]
   \<and> ensure_list_payload (PDict [(''results'', PList [PInt 1]), (''items'', PList [PInt 4]),
                                  (''data'', PStr ''x'')]) = [PInt 4]
   \<and> ensure_list_payload (PDict [(''results'', PList [PInt 1]), (''total'', PInt 1)]) = [PInt 1]
   \<and> ensure_list_payload (PDict [(''id'', PInt 7), (''data'', PDict [])])
       = [PDict [(''id'', PInt 7), (''data'', PDict [])]]
   \<and> ensure_list_payload (PBool True) = [] \<and> ensure_list_payload (PInt 5) = []
   \<and> ensure_list_payload (PStr ''x'') = []"
  using ensure_list_payload_shapes [of "[PInt 2, PInt 3]"
          "[(''results'', PList [PInt 1]), (''data'', PList [PInt 2, PInt 3])]" "PBool True"]
        ensure_list_payload_shapes [of "[PInt 4]"
          "[(''results'', PList [PInt 1]), (''items'', PList [PInt 4]), (''data'', PStr ''x'')]" "PInt 5"]
        ensure_list_payload_shapes [of "[PInt 1]"
          "[(''results'', PList [PInt 1]), (''total'', PInt 1)]" "PStr ''x''"]
        ensure_list_payload_shapes [of "[]"
          "[(''id'', PInt 7), (''data'', PDict [])]" "PNone"]
  by (simp add: list_valued_def)

section \<open>Properties of the configuration resolver\<close>



section \<open>Properties of the retry policy\<close>







section \<open>Properties of the extractor\<close>

text \<open>
  Claim C10. Whenever the extraction returns, the \<open>record_count\<close> of its metadata is
  the length of the returned records. And it does return whenever the address joins, the
  request gives a response that is \<open>ok\<close> and the body parses, whatever the shape of the
  parsed value: the records are \<open>ensure_list_payload\<close> of it, a function with no failing
  branch.
\<close>

theorem extract_record_count:
  "(snd (extract_endpoint w sess k base ep hdrs) = Inr (records, m) \<longrightarrow>
      record_count m = length records)
   \<and> (urljoin w (base @ ''/'') ep = Inr url \<and> send w sess k url hdrs = Inr resp
        \<and> ok resp \<and> json_body resp = Some data \<longrightarrow>
      snd (extract_endpoint w sess k base ep hdrs)
        = Inr (ensure_list_payload data,
               \<lparr> meta_status_code = status_code resp, meta_url = url,
                 record_count = length (ensure_list_payload data) \<rparr>))"
  by (auto simp: extract_endpoint_def Let_def split: sum.splits option.splits)

text \<open>
  Claim C10 at the server of the worked example, for a list and for a bare number.
\<close>

theorem extract_record_count_witness:
  "snd (extract_endpoint two_endpoint_world build_session_with_retries 0
          ''http://api.example.com'' ''users'' [])
     = Inr ([PDict [(''id'', PInt 1)], PDict [(''id'', PInt 2)], PDict [(''id'', PInt 3)]],
            \<lparr> meta_status_code = 200, meta_url = ''http://api.example.com/users'',
              record_count = 3 \<rparr>)
   \<and> snd (extract_endpoint
            (demo_world\<lparr>send := (\<lambda>s k u h. Inr \<lparr> status_code = 200, body_text = ''5'',
                                                 retry_after_header = None,
                                                 json_body = Some (PInt 5) \<rparr>)\<rparr>)
            build_session_with_retries 0 ''http://api.example.com'' ''count'' [])
     = Inr ([], \<lparr> meta_status_code = 200, meta_url = ''http://api.example.com/count'',
                  record_count = 0 \<rparr>)"
proof -
  let ?resp = "\<lparr> status_code = 200, body_text = ''[...]'', retry_after_header = None,
                 json_body = Some three_records \<rparr>"
  let ?five = "\<lparr> status_code = 200, body_text = ''5'', retry_after_header = None,
                 json_body = Some (PInt 5) \<rparr>"
  let ?w = "demo_world\<lparr>send := (\<lambda>s k u h. Inr ?five)\<rparr>"
  have a: "urljoin two_endpoint_world (''http://api.example.com'' @ ''/'') ''users''
             = Inr ''http://api.example.com/users''
           \<and> send two_endpoint_world build_session_with_retries 0 ''http://api.example.com/users'' []
             = Inr ?resp
           \<and> ok ?resp \<and> json_body ?resp = Some three_records"
    by (simp add: two_endpoint_world_def demo_world_def ok_def)
  have b: "urljoin ?w (''http://api.example.com'' @ ''/'') ''count''
             = Inr ''http://api.example.com/count''
           \<and> send ?w build_session_with_retries 0 ''http://api.example.com/count'' [] = Inr ?five
           \<and> ok ?five \<and> json_body ?five = Some (PInt 5)"
    by (simp add: demo_world_def ok_def)
  have 1: "snd (extract_endpoint two_endpoint_world build_session_with_retries 0
          ''http://api.example.com'' ''users'' [])
     = Inr (ensure_list_payload three_records,
            \<lparr> meta_status_code = status_code ?resp, meta_url = ''http://api.example.com/users'',
              record_count = length (ensure_list_payload three_records) \<rparr>)"
    using extract_record_count [of two_endpoint_world build_session_with_retries 0
            "''http://api.example.com''" "''users''" "[]" "[]" undefined
            "''http://api.example.com/users''" ?resp three_records] a
    by blast
  have 2: "snd (extract_endpoint ?w build_session_with_retries 0
          ''http://api.example.com'' ''count'' [])
     = Inr (ensure_list_payload (PInt 5),
            \<lparr> meta_status_code = status_code ?five, meta_url = ''http://api.example.com/count'',
              record_count = length (ensure_list_payload (PInt 5)) \<rparr>)"
    using extract_record_count [of ?w build_session_with_retries 0
            "''http://api.example.com''" "''count''" "[]" "[]" undefined
            "''http://api.example.com/count''" ?five "PInt 5"] b
    by blast
  from 1 2 show ?thesis by (simp add: three_records_def)
qed

section \<open>Properties of the transformer\<close>

lemma enrich_fields:
  "map_of (enrich ts e d) ''ingested_at'' = Some ts"
  "map_of (enrich ts e d) ''source_endpoint'' = Some e"
  by (simp_all add: enrich_def update_conv')

lemma transform_loop_dicts:
  "transform_loop conv ts ep (map PDict ds) acc
     = Inr (acc @ map (enrich (PDatetime ts) (PStr ep)) ds)"
  by (induction ds arbitrary: acc) (simp_all add: dict_copy_def)

lemma transform_loop_fields:
  "transform_loop conv ts ep rs acc = Inr docs \<Longrightarrow>
     \<exists>new. docs = acc @ new \<and> length new = length rs \<and>
       (\<forall>doc \<in> set new. map_of doc ''ingested_at'' = Some (PDatetime ts)
                        \<and> map_of doc ''source_endpoint'' = Some (PStr ep))"
proof (induction rs arbitrary: acc)
  case Nil
  then show ?case by simp
next
  case (Cons r rs)
  from Cons.prems obtain doc where d: "dict_copy conv r = Inr doc"
    and l: "transform_loop conv ts ep rs (acc @ [enrich (PDatetime ts) (PStr ep) doc]) = Inr docs"
    by (auto split: sum.splits)
  from Cons.IH [OF l] obtain new where
    n: "docs = (acc @ [enrich (PDatetime ts) (PStr ep) doc]) @ new" "length new = length rs"
       "\<forall>doc \<in> set new. map_of doc ''ingested_at'' = Some (PDatetime ts)
                        \<and> map_of doc ''source_endpoint'' = Some (PStr ep)"
    by blast
  let ?new = "enrich (PDatetime ts) (PStr ep) doc # new"
  have "docs = acc @ ?new" using n(1) by simp
  moreover have "length ?new = length (r # rs)" using n(2) by simp
  moreover have "\<forall>doc \<in> set ?new. map_of doc ''ingested_at'' = Some (PDatetime ts)
                        \<and> map_of doc ''source_endpoint'' = Some (PStr ep)"
    using n(3) by (simp add: enrich_def update_conv')
  ultimately show ?case by blast
qed

text \<open>
  Claim C9. On dictionaries the transformer succeeds and enriches each one. In an enriched
  record \<open>ingested_at\<close> is the batch timestamp and \<open>source_endpoint\<close> the given endpoint,
  whatever the input record held under these two names; every other field is as in the
  input. The same holds for every document of any batch the transformer returns.
\<close>

theorem transform_overwrites:
  "transform w c (map PDict ds) ep
     = (Suc c, Inr (map (enrich (PDatetime (utcnow w c)) (PStr ep)) ds))
   \<and> map_of (enrich ts e d) ''ingested_at'' = Some ts
   \<and> map_of (enrich ts e d) ''source_endpoint'' = Some e
   \<and> (k \<noteq> ''ingested_at'' \<and> k \<noteq> ''source_endpoint'' \<longrightarrow> map_of (enrich ts e d) k = map_of d k)
   \<and> (snd (transform w c rs ep) = Inr docs \<longrightarrow>
        length docs = length rs \<and>
        (\<forall>doc \<in> set docs. map_of doc ''ingested_at'' = Some (PDatetime (utcnow w c))
                          \<and> map_of doc ''source_endpoint'' = Some (PStr ep)))"
proof (intro conjI impI)
  show "transform w c (map PDict ds) ep
     = (Suc c, Inr (map (enrich (PDatetime (utcnow w c)) (PStr ep)) ds))"
    by (simp add: transform_def transform_loop_dicts)
  show "map_of (enrich ts e d) ''ingested_at'' = Some ts"
       "map_of (enrich ts e d) ''source_endpoint'' = Some e"
    by (simp_all add: enrich_def update_conv')
  show "map_of (enrich ts e d) k = map_of d k" if "k \<noteq> ''ingested_at'' \<and> k \<noteq> ''source_endpoint''"
    using that by (simp add: enrich_def update_conv')
  assume "snd (transform w c rs ep) = Inr docs"
  then have "transform_loop (pydict_of w) (utcnow w c) ep rs [] = Inr docs"
    by (simp add: transform_def)
  from transform_loop_fields [OF this]
  show "length docs = length rs"
    "\<forall>doc \<in> set docs. map_of doc ''ingested_at'' = Some (PDatetime (utcnow w c))
                          \<and> map_of doc ''source_endpoint'' = Some (PStr ep)"
    by auto
qed

text \<open>
  Claim C9 at a record that brings its own \<open>ingested_at\<close> and \<open>source_endpoint\<close>.
\<close>

theorem transform_overwrites_witness:
  "transform demo_world 0
      [PDict [(''ingested_at'', PStr ''yesterday''), (''id'', PInt 1),
              (''source_endpoint'', PStr ''elsewhere'')]] ''posts''
     = (1, Inr [[(''ingested_at'', PDatetime 1000), (''id'', PInt 1),
                 (''source_endpoint'', PStr ''posts'')]])
   \<and> map_of (enrich (PDatetime 7) (PStr ''posts'') [(''id'', PInt 1)]) ''id'' = Some (PInt 1)"
proof -
  have e: "enrich (PDatetime 1000) (PStr ''posts'')
             [(''ingested_at'', PStr ''yesterday''), (''id'', PInt 1),
              (''source_endpoint'', PStr ''elsewhere'')]
           = [(''ingested_at'', PDatetime 1000), (''id'', PInt 1),
              (''source_endpoint'', PStr ''posts'')]"
    by (simp add: enrich_def)
  have u: "utcnow demo_world 0 = 1000" by (simp add: demo_world_def)
  have a: "''id'' \<noteq> ''ingested_at'' \<and> ''id'' \<noteq> ''source_endpoint''" by simp
  note t = transform_overwrites [of demo_world 0
      "[[(''ingested_at'', PStr ''yesterday''), (''id'', PInt 1),
              (''source_endpoint'', PStr ''elsewhere'')]]" "''posts''"
      "PDatetime 7" "PStr ''posts''" "[(''id'', PInt 1)]" "''id''" "[]" "[]"]
  from t have "transform demo_world 0
      [PDict [(''ingested_at'', PStr ''yesterday''), (''id'', PInt 1),
              (''source_endpoint'', PStr ''elsewhere'')]] ''posts''
     = (1, Inr [[(''ingested_at'', PDatetime 1000), (''id'', PInt 1),
                 (''source_endpoint'', PStr ''posts'')]])"
    using e u by simp
  moreover from t a
  have "map_of (enrich (PDatetime 7) (PStr ''posts'') [(''id'', PInt 1)]) ''id'' = Some (PInt 1)"
    by simp
  ultimately show ?thesis by simp
qed

section \<open>The transformer leaves its input alone\<close>

lemma hget_append_old: "a < length pre \<Longrightarrow> hget (pre @ rest) a = Some (pre ! a)"
  by (simp add: hget_def nth_append)

lemma is_record_items:
  "is_record pre r \<Longrightarrow> \<exists>a. r = HRef a \<and> a < length pre \<and> pre ! a = HDictObj (items_at pre r)"
  by (auto simp: is_record_def items_at_def hget_def split: hval.splits option.splits hobj.splits if_splits)

lemma dict_h_record:
  "is_record pre r \<Longrightarrow> dict_h conv (pre @ rest) r = Inr (items_at pre r)"
proof -
  assume "is_record pre r"
  from is_record_items [OF this] obtain a where
    a: "r = HRef a" "a < length pre" "pre ! a = HDictObj (items_at pre r)" by blast
  then show ?thesis by (simp add: dict_h_def hget_append_old)
qed

lemma hget_new: "hget (pre @ x # news @ [obj]) (Suc (length pre + length news)) = Some obj"
  by (simp add: hget_def nth_append)

lemma update_new:
  "(pre @ x # news @ [obj])[Suc (length pre + length news) := obj'] = pre @ x # news @ [obj']"
  by (simp add: list_update_append)

lemma setitem_new:
  "setitem (pre @ x # news @ [HDictObj d]) (Suc (length pre + length news)) k v
     = pre @ x # news @ [HDictObj (AList.update k v d)]"
  by (simp only: setitem_def hget_new update_new option.case hobj.case)

lemma append_h_result:
  "append_h (pre @ HListObj acc # rest) (length pre) v = pre @ HListObj (acc @ [v]) # rest"
  by (simp add: append_h_def hget_def nth_append list_update_append)

lemma loop_step:
  assumes "is_record pre r"
  shows "transform_loop_h conv ts ep (length pre) (r # rs) (pre @ HListObj acc # news)
       = transform_loop_h conv ts ep (length pre) rs
           (pre @ HListObj (acc @ [HRef (Suc (length pre + length news))])
              # (news @ [HDictObj (enrich ts ep (items_at pre r))]))"
proof -
  have d: "dict_h conv (pre @ HListObj acc # news) r = Inr (items_at pre r)"
    using assms by (rule dict_h_record)
  have al: "alloc (pre @ HListObj acc # news) (HDictObj (items_at pre r))
        = (pre @ HListObj acc # news @ [HDictObj (items_at pre r)], Suc (length pre + length news))"
    by (simp add: alloc_def)
  show ?thesis
    by (simp add: d al setitem_new append_h_result enrich_def)
qed

lemma transform_loop_h_records:
  "\<forall>r \<in> set rs. is_record pre r \<Longrightarrow>
   transform_loop_h conv ts ep (length pre) rs (pre @ HListObj acc # news)
     = (pre @ HListObj (acc @ map HRef [Suc (length pre + length news)
                                         ..< Suc (length pre + length news) + length rs])
          # news @ map (\<lambda>r. HDictObj (enrich ts ep (items_at pre r))) rs, None)"
proof (induction rs arbitrary: acc news)
  case Nil
  show ?case by simp
next
  case (Cons r rs)
  from Cons.prems have r: "is_record pre r" and rs: "\<forall>r \<in> set rs. is_record pre r" by auto
  have u: "[Suc (length pre + length news) ..< Suc (length pre + length news) + length (r # rs)]
        = Suc (length pre + length news)
          # [Suc (length pre + length (news @ [HDictObj (enrich ts ep (items_at pre r))]))
             ..< Suc (length pre + length (news @ [HDictObj (enrich ts ep (items_at pre r))]))
                 + length rs]"
    by (simp add: upt_conv_Cons del: upt_Suc)
  show ?case
    by (simp only: loop_step [OF r] Cons.IH [OF rs] u) (simp del: upt_Suc)
qed

lemma transform_h_records:
  assumes l: "hget h records = Some (HListObj rs)" and r: "\<forall>r \<in> set rs. is_record h r"
  shows "transform_h conv now c h records ep
     = (Suc c,
        h @ HListObj (map HRef [Suc (length h) ..< Suc (length h) + length rs])
          # map (\<lambda>r. HDictObj (enrich (HDatetime (now c)) (HStr ep) (items_at h r))) rs,
        Inr (length h))"
proof -
  from l have lt: "records < length h" and at: "h ! records = HListObj rs"
    by (auto simp: hget_def split: if_splits)
  then have g: "hget (h @ [HListObj []]) records = Some (HListObj rs)"
    by (simp add: hget_append_old)
  from transform_loop_h_records [OF r, of conv "HDatetime (now c)" "HStr ep" "[]" "[]"]
  have "transform_loop_h conv (HDatetime (now c)) (HStr ep) (length h) rs (h @ [HListObj []])
     = (h @ HListObj (map HRef [Suc (length h) ..< Suc (length h) + length rs])
          # map (\<lambda>r. HDictObj (enrich (HDatetime (now c)) (HStr ep) (items_at h r))) rs, None)"
    by simp
  then show ?thesis
    by (simp add: transform_h_def alloc_def g)
qed

text \<open>
  Claim C5. Let \<open>records\<close> be the address of a list of references to dictionaries.
  The transformer reads the clock once and returns the address of a new list of new
  dictionaries, one per input record. Every object that existed before the call is
  unchanged afterwards (the input list and each input record among them); the new list
  and the new dictionaries lie at fresh, pairwise different addresses, so none is an
  input record; and the \<open>i\<close>-th new dictionary holds the items of the \<open>i\<close>-th input
  record enriched with the one timestamp of the call and the given endpoint.
\<close>

theorem transform_fresh_records:
  assumes "hget h records = Some (HListObj rs)" and "\<forall>r \<in> set rs. is_record h r"
  shows "\<exists>h' t ds. transform_h conv now c h records ep = (Suc c, h', Inr t)
           \<and> take (length h) h' = h
           \<and> hget h' records = Some (HListObj rs)
           \<and> (\<forall>a < length h. hget h' a = hget h a)
           \<and> length h \<le> t \<and> hget h' t = Some (HListObj (map HRef ds))
           \<and> length ds = length rs \<and> distinct ds
           \<and> (\<forall>d \<in> set ds. length h \<le> d \<and> d \<noteq> t)
           \<and> (\<forall>i < length rs.
                 hget h' (ds ! i)
                   = Some (HDictObj (enrich (HDatetime (now c)) (HStr ep) (items_at h (rs ! i)))))"
proof -
  let ?ds = "[Suc (length h) ..< Suc (length h) + length rs]"
  let ?new = "map (\<lambda>r. HDictObj (enrich (HDatetime (now c)) (HStr ep) (items_at h r))) rs"
  let ?h' = "h @ HListObj (map HRef ?ds) # ?new"
  have e: "transform_h conv now c h records ep = (Suc c, ?h', Inr (length h))"
    using assms by (rule transform_h_records)
  have 1: "take (length h) ?h' = h" by simp
  have old: "\<forall>a < length h. hget ?h' a = hget h a"
    by (simp add: hget_def nth_append del: upt_Suc)
  from assms(1) have "records < length h" by (auto simp: hget_def split: if_splits)
  with old assms(1) have 2: "hget ?h' records = Some (HListObj rs)" by simp
  have 3: "hget ?h' (length h) = Some (HListObj (map HRef ?ds))"
    by (simp add: hget_def del: upt_Suc)
  have 4: "length ?ds = length rs" "distinct ?ds"
    by (simp_all del: upt_Suc)
  have 5: "\<forall>d \<in> set ?ds. length h \<le> d \<and> d \<noteq> length h"
    by (auto simp del: upt_Suc)
  have 6: "\<forall>i < length rs. hget ?h' (?ds ! i)
             = Some (HDictObj (enrich (HDatetime (now c)) (HStr ep) (items_at h (rs ! i))))"
  proof (intro allI impI)
    fix i assume i: "i < length rs"
    then have n: "?ds ! i = Suc (length h) + i" by (simp del: upt_Suc)
    have "hget ?h' (Suc (length h) + i) = Some (?new ! i)"
      using i by (simp add: hget_def nth_append del: upt_Suc)
    with i n show "hget ?h' (?ds ! i)
             = Some (HDictObj (enrich (HDatetime (now c)) (HStr ep) (items_at h (rs ! i))))"
      by (simp del: upt_Suc)
  qed
  from e 1 2 old 3 4 5 6 show ?thesis by blast
qed

text \<open>
  Claim C5 at a store where the input list holds the same record twice and the record
  holds a reference to a nested list.
\<close>

theorem transform_fresh_records_witness:
  "transform_h (\<lambda>h v. Inl TypeError) (\<lambda>k. 1000 + k) 0
      [HDictObj [(''id'', HInt 1), (''tags'', HRef 2)], HListObj [HRef 0, HRef 0], HListObj []]
      1 ''posts''
   = (1, [HDictObj [(''id'', HInt 1), (''tags'', HRef 2)], HListObj [HRef 0, HRef 0], HListObj [],
          HListObj [HRef 4, HRef 5],
          HDictObj [(''id'', HInt 1), (''tags'', HRef 2), (''ingested_at'', HDatetime 1000),
                    (''source_endpoint'', HStr ''posts'')],
          HDictObj [(''id'', HInt 1), (''tags'', HRef 2), (''ingested_at'', HDatetime 1000),
                    (''source_endpoint'', HStr ''posts'')]],
      Inr 3)"
proof -
  let ?h = "[HDictObj [(''id'', HInt 1), (''tags'', HRef 2)], HListObj [HRef 0, HRef 0], HListObj []]"
  have a: "hget ?h 1 = Some (HListObj [HRef 0, HRef 0])" by (simp add: hget_def)
  have b: "\<forall>r \<in> set [HRef 0, HRef 0]. is_record ?h r" by (simp add: is_record_def hget_def)
  from transform_fresh_records [OF a b, of "\<lambda>h v. Inl TypeError" "\<lambda>k. 1000 + k" 0 "''posts''"]
  obtain h' t ds where
    r: "transform_h (\<lambda>h v. Inl TypeError) (\<lambda>k. 1000 + k) 0 ?h 1 ''posts'' = (Suc 0, h', Inr t)"
    by blast
  have "transform_h (\<lambda>h v. Inl TypeError) (\<lambda>k. 1000 + k) 0 ?h 1 ''posts''
   = (1, [HDictObj [(''id'', HInt 1), (''tags'', HRef 2)], HListObj [HRef 0, HRef 0], HListObj [],
          HListObj [HRef 4, HRef 5],
          HDictObj [(''id'', HInt 1), (''tags'', HRef 2), (''ingested_at'', HDatetime 1000),
                    (''source_endpoint'', HStr ''posts'')],
          HDictObj [(''id'', HInt 1), (''tags'', HRef 2), (''ingested_at'', HDatetime 1000),
                    (''source_endpoint'', HStr ''posts'')]],
      Inr 3)"
    by code_simp
  with r show ?thesis by simp
qed

section \<open>Properties of the loader\<close>





section \<open>Properties of the run orchestrator\<close>









end
